theory Spec2Isabelle
  imports Main "HOL-Library.Sublist" "HOL-Library.Word"
begin

section \<open>The registry builder (scripts/build-registry.mjs)\<close>

subsection \<open>Strings of the script\<close>

text \<open>
  A string of the script is a list of code units; the model keeps the code units below 256
  (\<^typ>\<open>char\<close>). File contents and HTTP bodies are byte lists.
\<close>

type_synonym byte = "8 word"
type_synonym bytes = "byte list"

definition TAB :: char where "TAB = CHR 0x09"
definition LF :: char where "LF = CHR 0x0A"
definition CR :: char where "CR = CHR 0x0D"
definition DQ :: char where "DQ = CHR 0x22"

text \<open>
  The white space that \<^verbatim>\<open>String.prototype.trim\<close> strips and that the regular expression
  \<^verbatim>\<open>\s\<close> matches: tab, line feed, vertical tab, form feed, carriage return, space and the
  no-break space (the other members of the class lie above code unit 255).
\<close>

definition is_ws :: "char \<Rightarrow> bool" where
  "is_ws c = (c = TAB \<or> c = LF \<or> c = CHR 0x0B \<or> c = CHR 0x0C \<or> c = CR \<or> c = CHR '' '' \<or> c = CHR 0xA0)"

definition trim :: "string \<Rightarrow> string" where
  "trim s = rev (dropWhile is_ws (rev (dropWhile is_ws s)))"

text \<open>
  \<^verbatim>\<open>s.split(sep)\<close> for a separator of one character: the empty string gives one empty
  piece. A character that is not the separator joins the first piece of the rest (there
  always is one).
\<close>

fun split_on :: "char \<Rightarrow> string \<Rightarrow> string list" where
  "split_on sep [] = [[]]"
| "split_on sep (c # cs) =
     (if c = sep then [] # split_on sep cs
      else (case split_on sep cs of
              [] \<Rightarrow> [[c]]
            | p # ps \<Rightarrow> (c # p) # ps))"

text \<open>\<^verbatim>\<open>xs.join(sep)\<close>.\<close>

fun join :: "string \<Rightarrow> string list \<Rightarrow> string" where
  "join sep [] = []"
| "join sep [x] = x"
| "join sep (x # y # ys) = x @ sep @ join sep (y # ys)"

definition startsWith :: "string \<Rightarrow> string \<Rightarrow> bool" where
  "startsWith s p = prefix p s"

text \<open>\<^verbatim>\<open>s.includes(sub)\<close>: \<open>sub\<close> occurs in \<open>s\<close> as a contiguous run.\<close>

fun str_includes :: "string \<Rightarrow> string \<Rightarrow> bool" where
  "str_includes [] sub = (sub = [])"
| "str_includes (c # cs) sub = (prefix sub (c # cs) \<or> str_includes cs sub)"

text \<open>The decimal digits of a number, as a template literal prints it.\<close>

definition digit_char :: "nat \<Rightarrow> char" where
  "digit_char d = ''0123456789'' ! d"

fun show_nat :: "nat \<Rightarrow> string" where
  "show_nat n =
     (if n < 10 then [digit_char n]
      else show_nat (n div 10) @ [digit_char (n mod 10)])"

declare show_nat.simps [simp del]

subsection \<open>tsvEscape\<close>

definition tsvEscape :: "string \<Rightarrow> string" where
  "tsvEscape s =
     map (\<lambda>c. if c = LF then CHR '' '' else c)
       (map (\<lambda>c. if c = CR then CHR '' '' else c)
         (map (\<lambda>c. if c = TAB then CHR '' '' else c) s))"

subsection \<open>Rows\<close>

text \<open>
  A row is the object \<^verbatim>\<open>row\<close> of the parser: a mapping from header names to cells.
  \<^verbatim>\<open>String(r.k ?? "")\<close> reads a key, with the empty string for a missing one.
\<close>

type_synonym row = "string \<rightharpoonup> string"

definition cell :: "row \<Rightarrow> string \<Rightarrow> string" where
  "cell r k = (case r k of None \<Rightarrow> [] | Some v \<Rightarrow> v)"

subsection \<open>buildTSVBody\<close>

text \<open>
  The body of the loop: \<open>tags_field\<close> is the expression that computes \<^verbatim>\<open>tags\<close>,
  \<open>row_fields\<close> the four fields that are joined with tabs into the row's line.
\<close>

definition tags_field :: "string \<Rightarrow> string" where
  "tags_field raw =
     tsvEscape (join '','' (filter (\<lambda>t. t \<noteq> []) (map trim (split_on (CHR '','') raw))))"

definition row_fields :: "row \<Rightarrow> string list" where
  "row_fields r =
     (let slug = tsvEscape (trim (cell r ''slug''));
          title = tsvEscape (trim (cell r ''title''));
          url = tsvEscape (trim (cell r ''url''));
          tags = tags_field (cell r ''tags'')
      in [slug, title, url, tags])"

definition buildTSVBody :: "row list \<Rightarrow> string" where
  "buildTSVBody rows =
     (let header = join [TAB] [''slug'', ''title'', ''url'', ''tags''];
          lines = [header] @ map (\<lambda>r. join [TAB] (row_fields r)) rows
      in join [LF] lines @ [LF])"

subsection \<open>The platform\<close>

text \<open>
  What the script takes from Node.js and does not define: the WHATWG URL parser (the
  protocol of \<^verbatim>\<open>new URL(s)\<close>, or nothing when the constructor throws), the SHA-256 digest
  in lowercase hexadecimal, and the UTF-8 codec of \<^verbatim>\<open>Buffer.from\<close> and \<^verbatim>\<open>readFileSync\<close>.
\<close>

record platform =
  url_protocol :: "string \<Rightarrow> string option"
  sha256_hex_digest :: "bytes \<Rightarrow> string"
  utf8_encode :: "string \<Rightarrow> bytes"
  utf8_decode :: "bytes \<Rightarrow> string"

definition sha256hex :: "platform \<Rightarrow> bytes \<Rightarrow> string" where
  "sha256hex P buf = sha256_hex_digest P buf"

definition isHttpUrl :: "platform \<Rightarrow> string \<Rightarrow> bool" where
  "isHttpUrl P s =
     (case url_protocol P s of
        None \<Rightarrow> False
      | Some protocol \<Rightarrow> protocol = ''http:'' \<or> protocol = ''https:'')"

subsection \<open>Errors\<close>

text \<open>
  A thrown \<^verbatim>\<open>Error(message)\<close>, or the failure of a file-system call with its code and path.
\<close>

datatype error = Error string | FsError string "string list"

subsection \<open>validateRows\<close>

definition required :: "string list" where
  "required = [''slug'', ''title'', ''url'', ''tags'']"

definition row_label :: "nat \<Rightarrow> string" where
  "row_label i = ''Row '' @ show_nat (i + 1)"

definition slug_of :: "row \<Rightarrow> string" where
  "slug_of r = trim (cell r ''slug'')"

text \<open>The body of the first loop, for the row at index \<open>i\<close>.\<close>

definition row_errors :: "platform \<Rightarrow> nat \<Rightarrow> row \<Rightarrow> string list" where
  "row_errors P i r =
     concat (map (\<lambda>k. if r k = None
                        then [row_label i @ '': missing column '' @ [DQ] @ k @ [DQ]]
                        else []) required) @
     (let slug = slug_of r;
          title = trim (cell r ''title'');
          url = trim (cell r ''url'')
      in (if slug = [] then [row_label i @ '': empty slug''] else []) @
         (if list_ex is_ws slug
          then [row_label i @ '': slug has whitespace: '' @ [DQ] @ slug @ [DQ]] else []) @
         (if title = [] then [row_label i @ '': empty title''] else []) @
         (if url = [] then [row_label i @ '': empty url''] else []) @
         (if url \<noteq> [] \<and> \<not> isHttpUrl P url
          then [row_label i @ '': url is not http(s): '' @ [DQ] @ url @ [DQ]] else []))"

fun row_checks :: "platform \<Rightarrow> nat \<Rightarrow> row list \<Rightarrow> string list" where
  "row_checks P i [] = []"
| "row_checks P i (r # rs) = row_errors P i r @ row_checks P (i + 1) rs"

definition dup_msg :: "string \<Rightarrow> nat \<Rightarrow> nat \<Rightarrow> string" where
  "dup_msg slug first again =
     ''Duplicate slug '' @ [DQ] @ slug @ [DQ] @ '' at rows '' @ show_nat first @
     '' and '' @ show_nat again"

text \<open>The second loop, from index \<open>i\<close> on, with the map \<^verbatim>\<open>seen\<close>.\<close>

fun dup_checks :: "nat \<Rightarrow> row list \<Rightarrow> (string \<rightharpoonup> nat) \<Rightarrow> string list" where
  "dup_checks i [] seen = []"
| "dup_checks i (r # rs) seen =
     (let slug = slug_of r
      in if slug = [] then dup_checks (i + 1) rs seen
         else (case seen slug of
                 Some j \<Rightarrow> dup_msg slug j (i + 1) # dup_checks (i + 1) rs seen
               | None \<Rightarrow> dup_checks (i + 1) rs (seen(slug \<mapsto> i + 1))))"

definition collect_errors :: "platform \<Rightarrow> row list \<Rightarrow> string list" where
  "collect_errors P rows = row_checks P 0 rows @ dup_checks 0 rows Map.empty"

definition report :: "string list \<Rightarrow> string" where
  "report errors =
     ''Registry validation failed:'' @ [LF] @ join [LF] (map (\<lambda>e. ''- '' @ e) errors)"

definition validateRows :: "platform \<Rightarrow> row list \<Rightarrow> error + unit" where
  "validateRows P rows =
     (let errors = collect_errors P rows
      in if errors \<noteq> [] then Inl (Error (report errors)) else Inr ())"

subsection \<open>parseMarkdownTable\<close>

text \<open>\<^verbatim>\<open>mdText.split(/\r?\n/)\<close>: a line ends at a line feed, with the carriage return before it.\<close>

fun split_lines :: "string \<Rightarrow> string list" where
  "split_lines [] = [[]]"
| "split_lines [c] = (if c = LF then [[], []] else [[c]])"
| "split_lines (c # d # cs) =
     (if c = LF then [] # split_lines (d # cs)
      else if c = CR \<and> d = LF then [] # split_lines cs
      else (case split_lines (d # cs) of
              [] \<Rightarrow> [[c]]
            | p # ps \<Rightarrow> (c # p) # ps))"

text \<open>The search loop for the header line, from index \<open>i\<close>; \<open>None\<close> is \<^verbatim>\<open>start === -1\<close>.\<close>

function find_start :: "string list \<Rightarrow> nat \<Rightarrow> nat option" where
  "find_start lines i =
     (if i < length lines
      then (let line = trim (lines ! i)
            in if startsWith line ''|'' \<and> str_includes line ''|''
               then (if i + 1 < length lines \<and> startsWith (trim (lines ! (i + 1))) ''|''
                     then Some i
                     else find_start lines (i + 1))
               else find_start lines (i + 1))
      else None)"
  by pat_completeness auto
termination
  by (relation "measure (\<lambda>(lines, i). length lines - i)") auto

declare find_start.simps [simp del]

definition split_cells :: "string \<Rightarrow> string list" where
  "split_cells line = filter (\<lambda>x. length x > 0) (map trim (split_on (CHR ''|'') line))"

text \<open>
  \<^verbatim>\<open>row[h] = c\<close> on an object literal: an own property, but for the key
  \<^verbatim>\<open>__proto__\<close>, whose setter ignores a string.
\<close>

definition obj_set :: "row \<Rightarrow> string \<Rightarrow> string \<Rightarrow> row" where
  "obj_set r h c = (if h = ''__proto__'' then r else r(h \<mapsto> c))"

definition make_row :: "string list \<Rightarrow> string list \<Rightarrow> row" where
  "make_row headers cells =
     (let padded = cells @ replicate (length headers - length cells) []
      in foldl (\<lambda>r (h, c). obj_set r h c) Map.empty (zip headers padded))"

text \<open>The loop over the lines after the delimiter row.\<close>

fun parse_rows :: "string list \<Rightarrow> string list \<Rightarrow> row list" where
  "parse_rows headers [] = []"
| "parse_rows headers (l # ls) =
     (let line = trim l
      in if \<not> startsWith line ''|'' then []
         else (let cells = split_cells line
               in if length cells = 0 then parse_rows headers ls
                  else make_row headers cells # parse_rows headers ls))"

definition parseMarkdownTable :: "string \<Rightarrow> error + (string list \<times> row list)" where
  "parseMarkdownTable mdText =
     (let lines = split_lines mdText
      in case find_start lines 0 of
           None \<Rightarrow> Inl (Error ''No markdown table found in registry.md'')
         | Some start \<Rightarrow>
             (let headerLine = trim (lines ! start);
                  delimLine = trim (lines ! (start + 1))
              in if \<not> str_includes delimLine ''---''
                 then Inl (Error ''Markdown delimiter line not found after header'')
                 else (let headers = split_cells headerLine;
                           rows = parse_rows headers (drop (start + 2) lines)
                       in Inr (headers, rows))))"

subsection \<open>The file system and main\<close>

text \<open>
  Paths are lists of components below the working directory \<^verbatim>\<open>ROOT\<close>. The state holds the
  directories and the regular files with their bytes. \<^verbatim>\<open>mkdirSync\<close> with
  \<^verbatim>\<open>recursive: true\<close> accepts an existing directory and fails on a regular file;
  \<^verbatim>\<open>readFileSync\<close> fails on a missing file and on a directory; \<^verbatim>\<open>writeFileSync\<close>
  creates or replaces a file and fails on a directory.
\<close>

type_synonym path = "string list"

record fs_state =
  dirs :: "path set"
  files :: "path \<rightharpoonup> bytes"

definition ROOT :: path where "ROOT = []"
definition INPUT_MD :: path where "INPUT_MD = ROOT @ [''registry.md'']"
definition OUT_DIR :: path where "OUT_DIR = ROOT @ [''dist'']"

definition ensureDir :: "path \<Rightarrow> fs_state \<Rightarrow> error + fs_state" where
  "ensureDir p s =
     (if p \<in> dom (files s) then Inl (FsError ''EEXIST'' p)
      else Inr (s\<lparr>dirs := insert p (dirs s)\<rparr>))"

definition readFileSync :: "platform \<Rightarrow> path \<Rightarrow> fs_state \<Rightarrow> error + string" where
  "readFileSync P p s =
     (case files s p of
        Some b \<Rightarrow> Inr (utf8_decode P b)
      | None \<Rightarrow> Inl (FsError (if p \<in> dirs s then ''EISDIR'' else ''ENOENT'') p))"

definition writeFileSync :: "path \<Rightarrow> bytes \<Rightarrow> fs_state \<Rightarrow> error + fs_state" where
  "writeFileSync p buf s =
     (if p \<in> dirs s then Inl (FsError ''EISDIR'' p)
      else Inr (s\<lparr>files := (files s)(p \<mapsto> buf)\<rparr>))"

text \<open>
  \<^verbatim>\<open>main\<close> returns the lines it logs, or the error that ends the process, and the file
  system it leaves.
\<close>

definition main :: "platform \<Rightarrow> fs_state \<Rightarrow> (error + string list) \<times> fs_state" where
  "main P s0 =
     (case ensureDir OUT_DIR s0 of
        Inl e \<Rightarrow> (Inl e, s0)
      | Inr s1 \<Rightarrow>
     (case readFileSync P INPUT_MD s1 of
        Inl e \<Rightarrow> (Inl e, s1)
      | Inr md \<Rightarrow>
     (case parseMarkdownTable md of
        Inl e \<Rightarrow> (Inl e, s1)
      | Inr (headers, rows) \<Rightarrow>
     (case validateRows P rows of
        Inl e \<Rightarrow> (Inl e, s1)
      | Inr _ \<Rightarrow>
     (let body = buildTSVBody rows;
          version = take 16 (sha256hex P (utf8_encode P body));
          meta = ''#v='' @ version @ [LF];
          full = meta @ body;
          fullBuf = utf8_encode P full;
          hashedName = ''registry.'' @ version @ ''.tsv''
      in case writeFileSync (OUT_DIR @ [''registry.tsv'']) fullBuf s1 of
           Inl e \<Rightarrow> (Inl e, s1)
         | Inr s2 \<Rightarrow>
        (case writeFileSync (OUT_DIR @ [hashedName]) fullBuf s2 of
           Inl e \<Rightarrow> (Inl e, s2)
         | Inr s3 \<Rightarrow>
             (Inr [''Built '' @ show_nat (length rows) @ '' entries'',
                   ''version: '' @ version,
                   ''dist/registry.tsv'',
                   ''dist/'' @ hashedName], s3)))))))"

section \<open>The static server (the Go program)\<close>

subsection \<open>Strings and paths\<close>

definition Contains :: "string \<Rightarrow> string \<Rightarrow> bool" where
  "Contains s substr = str_includes s substr"

definition HasPrefix :: "string \<Rightarrow> string \<Rightarrow> bool" where
  "HasPrefix s p = prefix p s"

definition HasSuffix :: "string \<Rightarrow> string \<Rightarrow> bool" where
  "HasSuffix s p = suffix p s"

text \<open>
  \<^verbatim>\<open>strings.ToLower\<close> on the ASCII letters; the extensions it is compared with are ASCII.
\<close>

definition lower_char :: "char \<Rightarrow> char" where
  "lower_char c =
     (let n = (of_char c :: nat)
      in if 65 \<le> n \<and> n \<le> 90 then char_of (n + 32) else c)"

definition ToLower :: "string \<Rightarrow> string" where
  "ToLower s = map lower_char s"

text \<open>
  \<^verbatim>\<open>filepath.Ext\<close>: the loop runs from the last byte down to the first and stops at a
  path separator; \<open>ext_scan\<close> reads the reversed path and collects what it has passed.
\<close>

fun ext_scan :: "string \<Rightarrow> string \<Rightarrow> string" where
  "ext_scan [] acc = []"
| "ext_scan (c # cs) acc =
     (if c = CHR ''/'' then []
      else if c = CHR ''.'' then c # acc
      else ext_scan cs (c # acc))"

definition Ext :: "string \<Rightarrow> string" where
  "Ext p = ext_scan (rev p) []"

subsection \<open>Requests, headers and the response writer\<close>

text \<open>
  An \<^verbatim>\<open>http.Header\<close> maps a (canonical) key to its values. A request is its URL path and
  its header. The state of a \<^verbatim>\<open>ResponseWriter\<close> is the header map, the status and the
  bytes that \<^verbatim>\<open>Write\<close> received.
\<close>

type_synonym http_header = "string \<rightharpoonup> string list"

definition Get :: "http_header \<Rightarrow> string \<Rightarrow> string" where
  "Get h k = (case h k of None \<Rightarrow> [] | Some [] \<Rightarrow> [] | Some (v # _) \<Rightarrow> v)"

definition Set :: "http_header \<Rightarrow> string \<Rightarrow> string \<Rightarrow> http_header" where
  "Set h k v = h(k \<mapsto> [v])"

definition Add :: "http_header \<Rightarrow> string \<Rightarrow> string \<Rightarrow> http_header" where
  "Add h k v = h(k \<mapsto> (case h k of None \<Rightarrow> [] | Some vs \<Rightarrow> vs) @ [v])"

record request =
  url_path :: string
  req_header :: http_header

record response_writer =
  rw_header :: http_header
  rw_status :: "nat option"
  rw_written :: bytes

definition new_response :: response_writer where
  "new_response = \<lparr>rw_header = Map.empty, rw_status = None, rw_written = []\<rparr>"

type_synonym handler = "response_writer \<Rightarrow> request \<Rightarrow> response_writer"

subsection \<open>The libraries\<close>

text \<open>
  \<^verbatim>\<open>http.FileServer(http.Dir(dir))\<close> is the standard library's: for a request and the header
  map it finds, it leaves a header map, sends a status and writes bytes. The gzip library
  gives, for a level, an error or the writer; a writer is the function from the bytes
  written to it to the bytes it has passed on when it is closed.
\<close>

record file_reply =
  reply_header :: http_header
  reply_status :: nat
  reply_data :: bytes

type_synonym file_server = "request \<Rightarrow> http_header \<Rightarrow> file_reply"

type_synonym gzip_lib = "int \<Rightarrow> string + (bytes \<Rightarrow> bytes)"

definition BestCompression :: int where
  "BestCompression = 9"

definition FileServer_ServeHTTP :: "file_server \<Rightarrow> handler" where
  "FileServer_ServeHTTP fs w r =
     (let reply = fs r (rw_header w)
      in w\<lparr>rw_header := reply_header reply,
           rw_status := Some (reply_status reply),
           rw_written := rw_written w @ reply_data reply\<rparr>)"

subsection \<open>main's handler and withGzip\<close>

definition handler :: "file_server \<Rightarrow> handler" where
  "handler fs w r =
     (let w1 = w\<lparr>rw_header := Set (rw_header w) ''Access-Control-Allow-Origin'' ''*''\<rparr>;
          w2 = (if HasPrefix (url_path r) ''/registry.'' \<and> HasSuffix (url_path r) ''.tsv''
                then w1\<lparr>rw_header := Set (rw_header w1) ''Cache-Control''
                                        ''public, max-age=31536000, immutable''\<rparr>
                else if url_path r = ''/registry.tsv''
                then w1\<lparr>rw_header := Set (rw_header w1) ''Cache-Control'' ''public, max-age=60''\<rparr>
                else w1)
      in FileServer_ServeHTTP fs w2 r)"

text \<open>
  With the gzip writer, the inner handler runs on a \<^verbatim>\<open>gzipResponseWriter\<close>: the header and
  the status are those of \<open>w\<close>, and what the handler writes goes through the writer,
  which is closed when the function returns.
\<close>

definition withGzip :: "gzip_lib \<Rightarrow> handler \<Rightarrow> handler" where
  "withGzip NewWriterLevel next w r =
     (if \<not> Contains (Get (req_header r) ''Accept-Encoding'') ''gzip'' then next w r
      else (let ext = ToLower (Ext (url_path r))
            in if ext \<noteq> ''.tsv'' \<and> ext \<noteq> ''.html'' \<and> ext \<noteq> ''.js'' \<and> ext \<noteq> ''.css''
               then next w r
               else (let w1 = w\<lparr>rw_header := Set (rw_header w) ''Content-Encoding'' ''gzip''\<rparr>;
                         w2 = w1\<lparr>rw_header := Add (rw_header w1) ''Vary'' ''Accept-Encoding''\<rparr>
                     in case NewWriterLevel BestCompression of
                          Inl err \<Rightarrow> next w2 r
                        | Inr gz \<Rightarrow>
                            (let inner = next (w2\<lparr>rw_written := []\<rparr>) r
                             in inner\<lparr>rw_written := rw_written w2 @ gz (rw_written inner)\<rparr>))))"

text \<open>The server answers a request with \<^verbatim>\<open>withGzip(handler)\<close> on a fresh response writer.\<close>

definition serve :: "gzip_lib \<Rightarrow> file_server \<Rightarrow> request \<Rightarrow> response_writer" where
  "serve NewWriterLevel fs r = withGzip NewWriterLevel (handler fs) new_response r"

section \<open>The notions of the specification\<close>

text \<open>
  Definitions that follow the words of the specification, to be compared with the code.
\<close>

subsection \<open>Tags\<close>

text \<open>
  The normalised tags: the raw string split on commas, each piece trimmed, the empty
  pieces dropped, the rest joined with commas (order kept, nothing deduplicated).
\<close>

fun keep_tags :: "string list \<Rightarrow> string list" where
  "keep_tags [] = []"
| "keep_tags (p # ps) = (if trim p = [] then keep_tags ps else trim p # keep_tags ps)"

definition tags_spec :: "string \<Rightarrow> string" where
  "tags_spec raw = join '','' (keep_tags (split_on (CHR '','') raw))"

subsection \<open>The serialised body read back\<close>

text \<open>The column-header line, and the four values the serializer emits for a row.\<close>

definition header_line :: string where
  "header_line = ''slug'' @ [TAB] @ ''title'' @ [TAB] @ ''url'' @ [TAB] @ ''tags''"

definition emitted :: "row \<Rightarrow> string list" where
  "emitted r =
     [trim (cell r ''slug''), trim (cell r ''title''), trim (cell r ''url''),
      tags_spec (cell r ''tags'')]"

subsection \<open>Violations of the data model\<close>

text \<open>
  A row violates the model when a required column is absent, the slug is empty or holds
  white space, the title is empty, or the url is empty or no http(s) URL. A row set
  violates it when a row does or two rows share a slug.
\<close>

definition row_violation :: "platform \<Rightarrow> row \<Rightarrow> bool" where
  "row_violation P r =
     (list_ex (\<lambda>k. r k = None) required \<or>
      slug_of r = [] \<or>
      list_ex is_ws (slug_of r) \<or>
      trim (cell r ''title'') = [] \<or>
      trim (cell r ''url'') = [] \<or>
      \<not> isHttpUrl P (trim (cell r ''url'')))"

definition has_violation :: "platform \<Rightarrow> row list \<Rightarrow> bool" where
  "has_violation P rows = (list_ex (row_violation P) rows \<or> \<not> distinct (map slug_of rows))"

subsection \<open>The table in the markdown text\<close>

text \<open>
  Line \<open>i\<close> starts a table: trimmed, it starts with a pipe, and the line right after
  it, trimmed, starts with a pipe too.
\<close>

definition pair_at :: "string list \<Rightarrow> nat \<Rightarrow> bool" where
  "pair_at lines i =
     (i + 1 < length lines \<and>
      startsWith (trim (lines ! i)) ''|'' \<and>
      startsWith (trim (lines ! (i + 1))) ''|'')"

section \<open>Sample inputs\<close>

subsection \<open>For the builder\<close>

text \<open>
  A platform for the instances below: a URL parser that knows three schemes, a fixed
  digest, and the UTF-8 codec on ASCII text.
\<close>

definition demo_url_protocol :: "string \<Rightarrow> string option" where
  "demo_url_protocol s =
     (if prefix ''http://'' s then Some ''http:''
      else if prefix ''https://'' s then Some ''https:''
      else if prefix ''ftp://'' s then Some ''ftp:''
      else None)"

definition demo_platform :: platform where
  "demo_platform =
     \<lparr>url_protocol = demo_url_protocol,
      sha256_hex_digest =
        (\<lambda>b. ''9f86d081884c7d659a2feaa0c55ad015a3bf4f1b2b0b822cd15d6c15b0f00a08''),
      utf8_encode = map (\<lambda>c. of_nat (of_char c)),
      utf8_decode = map (\<lambda>b. char_of (unat b))\<rparr>"

definition row_a :: row where
  "row_a = [''slug'' \<mapsto> ''alpha'', ''title'' \<mapsto> ''Alpha demo'',
            ''url'' \<mapsto> ''https://example.com/a'', ''tags'' \<mapsto> ''a, ,b,,c'']"

definition row_b :: row where
  "row_b = [''slug'' \<mapsto> ''beta'', ''title'' \<mapsto> ''Beta'',
            ''url'' \<mapsto> ''http://example.com/b'', ''tags'' \<mapsto> []]"

definition sample_rows :: "row list" where
  "sample_rows = [row_a, row_b]"

text \<open>A valid row whose tags hold a tab between two letters.\<close>

definition tab_row :: row where
  "tab_row = [''slug'' \<mapsto> ''s'', ''title'' \<mapsto> ''T'',
              ''url'' \<mapsto> ''https://example.com'', ''tags'' \<mapsto> [CHR ''a'', TAB, CHR ''b'']]"

text \<open>Two rows without a slug, as the parser pads them when the slug column is the last.\<close>

definition no_slug_rows :: "row list" where
  "no_slug_rows =
     [[''title'' \<mapsto> ''A'', ''url'' \<mapsto> ''http://a.example'', ''tags'' \<mapsto> ''x'', ''slug'' \<mapsto> []],
      [''title'' \<mapsto> ''B'', ''url'' \<mapsto> ''http://b.example'', ''tags'' \<mapsto> ''y'', ''slug'' \<mapsto> []]]"

text \<open>Four rows with the slug \<open>a\<close> at rows 2 and 4.\<close>

definition dup_rows :: "row list" where
  "dup_rows =
     [[''slug'' \<mapsto> ''x'', ''title'' \<mapsto> ''X'', ''url'' \<mapsto> ''http://x.example'', ''tags'' \<mapsto> []],
      [''slug'' \<mapsto> ''a'', ''title'' \<mapsto> ''A'', ''url'' \<mapsto> ''http://a.example'', ''tags'' \<mapsto> []],
      [''slug'' \<mapsto> ''y'', ''title'' \<mapsto> ''Y'', ''url'' \<mapsto> ''http://y.example'', ''tags'' \<mapsto> []],
      [''slug'' \<mapsto> '' a '', ''title'' \<mapsto> ''A2'', ''url'' \<mapsto> ''http://a2.example'', ''tags'' \<mapsto> []]]"

text \<open>
  A markdown text: a title line, a table of two rows, and a line after the table.
\<close>

definition sample_md :: string where
  "sample_md =
     ''# Demos'' @ [LF] @
     ''| slug | title | url | tags |'' @ [CR, LF] @
     ''|------|-------|-----|------|'' @ [LF] @
     ''| alpha | Alpha demo | https://example.com/a | a, ,b,,c |'' @ [LF] @
     ''| beta | Beta | http://example.com/b |'' @ [LF] @
     ''The end.''"

text \<open>A table whose only row has a slug with a space and an ftp url.\<close>

definition bad_md :: string where
  "bad_md =
     ''| slug | title | url | tags |'' @ [LF] @
     ''|------|-------|-----|------|'' @ [LF] @
     ''| beta b | Beta | ftp://example.com/b | t |''"

text \<open>The row of \<open>bad_md\<close>.\<close>

definition bad_rows :: "row list" where
  "bad_rows =
     [[''slug'' \<mapsto> ''beta b'', ''title'' \<mapsto> ''Beta'',
       ''url'' \<mapsto> ''ftp://example.com/b'', ''tags'' \<mapsto> ''t'']]"

definition fs_with :: "string \<Rightarrow> fs_state" where
  "fs_with md = \<lparr>dirs = {}, files = [INPUT_MD \<mapsto> utf8_encode demo_platform md]\<rparr>"

text \<open>A file system without the input file.\<close>

definition empty_fs :: fs_state where
  "empty_fs = \<lparr>dirs = {}, files = Map.empty\<rparr>"

subsection \<open>For the server\<close>

text \<open>
  The sample gzip library accepts the levels the real one accepts and frames its input
  with the two magic bytes; \<open>failing_gzip\<close> is a library whose constructor returns an
  error.
\<close>

definition demo_compress :: "bytes \<Rightarrow> bytes" where
  "demo_compress b = 0x1f # 0x8b # b"

definition demo_gunzip :: "bytes \<Rightarrow> bytes option" where
  "demo_gunzip b =
     (case b of
        x # y # rest \<Rightarrow> if x = 0x1f \<and> y = 0x8b then Some rest else None
      | _ \<Rightarrow> None)"

definition demo_gzip :: gzip_lib where
  "demo_gzip level =
     (if level < - 2 \<or> 9 < level then Inl ''gzip: invalid compression level''
      else Inr demo_compress)"


definition sample_bytes :: bytes where
  "sample_bytes = [0x23, 0x76, 0x3d, 0x30, 0x0a]"

definition demo_file_server :: "bytes \<Rightarrow> file_server" where
  "demo_file_server content r h =
     \<lparr>reply_header = Set h ''Content-Type'' ''text/tab-separated-values; charset=utf-8'',
      reply_status = 200,
      reply_data = content\<rparr>"

definition hashed_request :: request where
  "hashed_request =
     \<lparr>url_path = ''/registry.abcdef0123456789.tsv'',
      req_header = [''Accept-Encoding'' \<mapsto> [''gzip'']]\<rparr>"

definition stable_request :: request where
  "stable_request = \<lparr>url_path = ''/registry.tsv'', req_header = Map.empty\<rparr>"

text \<open>
  The request for the hash-named file with two \<^verbatim>\<open>Accept-Encoding\<close> lines, gzip on the
  second.
\<close>

definition second_line_request :: request where
  "second_line_request =
     \<lparr>url_path = ''/registry.abcdef0123456789.tsv'',
      req_header = [''Accept-Encoding'' \<mapsto> [''identity'', ''gzip'']]\<rparr>"

text \<open>
  A conditional request for the hash-named file, and a file server that answers it as
  the one of \<^verbatim>\<open>net/http\<close> answers for a file that has not changed: status 304, no body,
  and the fields \<^verbatim>\<open>Content-Type\<close>, \<^verbatim>\<open>Content-Length\<close> and \<^verbatim>\<open>Content-Encoding\<close>
  deleted from the header map. Any other request it serves as \<open>demo_file_server\<close> does.
\<close>

definition conditional_request :: request where
  "conditional_request =
     \<lparr>url_path = ''/registry.abcdef0123456789.tsv'',
      req_header = [''Accept-Encoding'' \<mapsto> [''gzip''],
                    ''If-Modified-Since'' \<mapsto> [''Mon, 02 Nov 2026 09:00:00 GMT'']]\<rparr>"

definition conditional_file_server :: "bytes \<Rightarrow> file_server" where
  "conditional_file_server content r h =
     (if req_header r ''If-Modified-Since'' = None then demo_file_server content r h
      else \<lparr>reply_header =
              h(''Content-Type'' := None, ''Content-Length'' := None,
                ''Content-Encoding'' := None),
            reply_status = 304,
            reply_data = []\<rparr>)"

section \<open>Properties of the registry builder\<close>

subsection \<open>Splitting and joining\<close>

lemma split_on_not_Nil: "split_on sep s \<noteq> []"
  by (induction s) (auto split: list.splits)

lemma split_on_no_sep: "sep \<notin> set s \<Longrightarrow> split_on sep s = [s]"
  by (induction s) auto

lemma split_on_append: "sep \<notin> set a \<Longrightarrow> split_on sep (a @ sep # b) = a # split_on sep b"
  by (induction a) auto

lemma join_Cons: "ls \<noteq> [] \<Longrightarrow> join sep (l # ls) = l @ sep @ join sep ls"
  by (cases ls) auto

lemma join_snoc: "ls \<noteq> [] \<Longrightarrow> join sep (ls @ [x]) = join sep ls @ sep @ x"
  by (induction sep ls rule: join.induct) auto

lemma split_on_join:
  "ls \<noteq> [] \<Longrightarrow> \<forall>l\<in>set ls. sep \<notin> set l \<Longrightarrow> split_on sep (join [sep] ls) = ls"
proof (induction "[sep]" ls rule: join.induct)
  case 1
  then show ?case by simp
next
  case (2 x)
  then show ?case by (simp add: split_on_no_sep)
next
  case (3 x y ys)
  then show ?case by (simp add: split_on_append)
qed

lemma split_on_join_terminated:
  assumes "ls \<noteq> []" and "\<forall>l\<in>set ls. sep \<notin> set l"
  shows "split_on sep (join [sep] ls @ [sep]) = ls @ [[]]"
proof -
  have "join [sep] ls @ [sep] = join [sep] (ls @ [[]])"
    using assms(1) by (simp add: join_snoc)
  moreover have "split_on sep (join [sep] (ls @ [[]])) = ls @ [[]]"
    using assms by (intro split_on_join) auto
  ultimately show ?thesis by simp
qed

subsection \<open>Characters of trimmed, split and joined strings\<close>

lemma set_trim: "set (trim s) \<subseteq> set s"
proof
  fix x assume "x \<in> set (trim s)"
  then have "x \<in> set (rev (dropWhile is_ws s))"
    unfolding trim_def set_rev by (auto dest: set_dropWhileD)
  then show "x \<in> set s"
    by (auto dest: set_dropWhileD)
qed

lemma set_split_on: "p \<in> set (split_on sep s) \<Longrightarrow> set p \<subseteq> set s"
proof (induction s arbitrary: p)
  case Nil
  then show ?case by simp
next
  case (Cons c cs)
  show ?case
  proof (cases "split_on sep cs")
    case Nil
    then show ?thesis by (simp add: split_on_not_Nil)
  next
    case (Cons a as)
    then have "set a \<subseteq> set cs" and "\<And>q. q \<in> set as \<Longrightarrow> set q \<subseteq> set cs"
      using Cons.IH by simp_all
    with Cons Cons.prems show ?thesis
      by (auto split: if_splits)
  qed
qed

lemma set_join: "set (join sep ls) \<subseteq> set sep \<union> \<Union> (set ` set ls)"
  by (induction sep ls rule: join.induct) auto

lemma tsvEscape_id:
  "TAB \<notin> set s \<Longrightarrow> CR \<notin> set s \<Longrightarrow> LF \<notin> set s \<Longrightarrow> tsvEscape s = s"
  by (induction s) (auto simp: tsvEscape_def)

lemma tsvEscape_clean:
  "TAB \<notin> set (tsvEscape s) \<and> LF \<notin> set (tsvEscape s) \<and> CR \<notin> set (tsvEscape s)"
  by (induction s) (auto simp: tsvEscape_def TAB_def LF_def CR_def)

lemma TAB_neq_LF: "TAB \<noteq> LF" "LF \<noteq> TAB"
  by (simp_all add: TAB_def LF_def)

subsection \<open>The tags field\<close>

lemma keep_tags_eq: "keep_tags ps = filter (\<lambda>t. t \<noteq> []) (map trim ps)"
  by (induction ps) auto

lemma tags_field_spec: "tags_field raw = tsvEscape (tags_spec raw)"
  by (simp add: tags_field_def tags_spec_def keep_tags_eq)

lemma set_keep_tags: "t \<in> set (keep_tags ps) \<Longrightarrow> \<exists>p\<in>set ps. set t \<subseteq> set p"
  using set_trim by (induction ps) (auto split: if_splits)

lemma set_tags_spec: "set (tags_spec raw) \<subseteq> insert (CHR '','') (set raw)"
proof
  fix x assume "x \<in> set (tags_spec raw)"
  then have "x \<in> set '','' \<union> \<Union> (set ` set (keep_tags (split_on (CHR '','') raw)))"
    unfolding tags_spec_def using set_join by blast
  then show "x \<in> insert (CHR '','') (set raw)"
    by (auto dest!: set_keep_tags dest: set_split_on)
qed

subsection \<open>The lines of the body\<close>

lemma row_fields_clean:
  "f \<in> set (row_fields r) \<Longrightarrow> TAB \<notin> set f \<and> LF \<notin> set f"
  using tsvEscape_clean by (auto simp: row_fields_def Let_def tags_field_def)

lemma row_line_no_LF: "LF \<notin> set (join [TAB] (row_fields r))"
  using set_join [of "[TAB]" "row_fields r"] row_fields_clean [of _ r]
  by (auto simp: TAB_neq_LF)

lemma row_fields_not_Nil: "row_fields r \<noteq> []"
  by (simp add: row_fields_def Let_def)

lemma split_row_line: "split_on TAB (join [TAB] (row_fields r)) = row_fields r"
  by (rule split_on_join) (auto simp: row_fields_not_Nil dest: row_fields_clean)

lemma header_line_no_LF: "LF \<notin> set header_line"
  by (simp add: header_line_def TAB_def LF_def)

lemma buildTSVBody_eq:
  "buildTSVBody rows =
     join [LF] (header_line # map (\<lambda>r. join [TAB] (row_fields r)) rows) @ [LF]"
  by (simp add: buildTSVBody_def header_line_def Let_def)

lemma split_body:
  "split_on LF (buildTSVBody rows) =
     header_line # map (\<lambda>r. join [TAB] (row_fields r)) rows @ [[]]"
  unfolding buildTSVBody_eq
  using split_on_join_terminated
    [of "header_line # map (\<lambda>r. join [TAB] (row_fields r)) rows" LF]
  by (auto simp: header_line_no_LF row_line_no_LF)

lemma tsvEscape_trim_clean:
  "TAB \<notin> set s \<Longrightarrow> CR \<notin> set s \<Longrightarrow> LF \<notin> set s \<Longrightarrow> tsvEscape (trim s) = trim s"
  using set_trim [of s] by (intro tsvEscape_id) auto

lemma tsvEscape_tags_clean:
  "TAB \<notin> set s \<Longrightarrow> CR \<notin> set s \<Longrightarrow> LF \<notin> set s \<Longrightarrow>
   tsvEscape (tags_spec s) = tags_spec s"
  using set_tags_spec [of s] by (intro tsvEscape_id) (auto simp: TAB_def CR_def LF_def)

lemma row_fields_emitted:
  assumes "\<forall>k\<in>set required.
      TAB \<notin> set (cell r k) \<and> CR \<notin> set (cell r k) \<and> LF \<notin> set (cell r k)"
  shows "row_fields r = emitted r"
  using assms
  by (simp add: row_fields_def emitted_def required_def Let_def tags_field_spec
      tsvEscape_trim_clean tsvEscape_tags_clean)

subsection \<open>The sample rows are valid\<close>

lemma sample_valid: "validateRows demo_platform sample_rows = Inr ()"
  by (simp add: validateRows_def collect_errors_def sample_rows_def row_a_def row_b_def
      row_errors_def required_def slug_of_def cell_def trim_def is_ws_def TAB_def LF_def
      CR_def isHttpUrl_def demo_platform_def demo_url_protocol_def Let_def)

subsection \<open>C4: reading the body back\<close>

text \<open>
  C4. For a valid row set whose fields hold no tab, carriage return or line feed,
  splitting the body on line feeds gives the column-header line, one line per row, and the
  empty piece after the final line feed; the lines of the rows, split on tabs, give for
  each row, in order, the four values the serializer emitted: the trimmed slug, title and
  url, and the normalised tags.
\<close>

theorem C4_roundtrip:
  assumes valid: "validateRows P rows = Inr ()"
    and clean: "\<forall>r\<in>set rows. \<forall>k\<in>set required.
        TAB \<notin> set (cell r k) \<and> CR \<notin> set (cell r k) \<and> LF \<notin> set (cell r k)"
  shows "hd (split_on LF (buildTSVBody rows)) = header_line \<and>
         last (split_on LF (buildTSVBody rows)) = [] \<and>
         map (split_on TAB) (butlast (tl (split_on LF (buildTSVBody rows)))) = map emitted rows"
proof -
  have "map (split_on TAB) (map (\<lambda>r. join [TAB] (row_fields r)) rows) = map row_fields rows"
    by (simp add: split_row_line)
  also have "\<dots> = map emitted rows"
    using clean by (intro map_cong refl row_fields_emitted) simp
  finally show ?thesis
    by (simp add: split_body butlast_append)
qed

lemma sample_rows_clean:
  "\<forall>r\<in>set sample_rows. \<forall>k\<in>set required.
        TAB \<notin> set (cell r k) \<and> CR \<notin> set (cell r k) \<and> LF \<notin> set (cell r k)"
  by (simp add: sample_rows_def row_a_def row_b_def required_def cell_def TAB_def CR_def LF_def)

lemma emitted_row_a: "emitted row_a = [''alpha'', ''Alpha demo'', ''https://example.com/a'', ''a,b,c'']"
  by (simp add: emitted_def row_a_def cell_def trim_def is_ws_def TAB_def LF_def CR_def tags_spec_def)

lemma emitted_row_b: "emitted row_b = [''beta'', ''Beta'', ''http://example.com/b'', []]"
  by (simp add: emitted_def row_b_def cell_def trim_def is_ws_def TAB_def LF_def CR_def tags_spec_def)

theorem C4_roundtrip_witness:
  "validateRows demo_platform sample_rows = Inr () \<and>
   hd (split_on LF (buildTSVBody sample_rows)) = header_line \<and>
   last (split_on LF (buildTSVBody sample_rows)) = [] \<and>
   map (split_on TAB) (butlast (tl (split_on LF (buildTSVBody sample_rows)))) =
     [[''alpha'', ''Alpha demo'', ''https://example.com/a'', ''a,b,c''],
      [''beta'', ''Beta'', ''http://example.com/b'', []]]"
  using C4_roundtrip [OF sample_valid sample_rows_clean] sample_valid
  by (simp add: emitted_row_a emitted_row_b sample_rows_def)

subsection \<open>C7: the tags field\<close>

text \<open>
  C7, as amended. For every row, the tags field of its line in the body is the raw tags
  string split on commas, each piece trimmed, the empty pieces dropped, the rest joined
  with commas, and then sanitised (each tab, carriage return and line feed replaced by a
  space); the input \<^verbatim>\<open>a, ,b,,c\<close> gives \<^verbatim>\<open>a,b,c\<close>, and a repeated tag is kept
  where it stands.
\<close>

theorem C7_tags_field_sanitized:
  assumes "i < length rows"
  shows "split_on TAB (split_on LF (buildTSVBody rows) ! Suc i) ! 3 =
           tsvEscape (tags_spec (cell (rows ! i) ''tags'')) \<and>
         tsvEscape (tags_spec ''a, ,b,,c'') = ''a,b,c'' \<and>
         tsvEscape (tags_spec ''b, a ,b'') = ''b,a,b''"
proof -
  have "split_on LF (buildTSVBody rows) ! Suc i = join [TAB] (row_fields (rows ! i))"
    using assms by (simp add: split_body nth_append)
  then have "split_on TAB (split_on LF (buildTSVBody rows) ! Suc i) ! 3 = row_fields (rows ! i) ! 3"
    by (simp add: split_row_line)
  moreover have "row_fields (rows ! i) ! 3 = tsvEscape (tags_spec (cell (rows ! i) ''tags''))"
    by (simp add: row_fields_def Let_def tags_field_spec)
  moreover have "tsvEscape (tags_spec ''a, ,b,,c'') = ''a,b,c''"
    by (simp add: tags_spec_def trim_def is_ws_def TAB_def LF_def CR_def tsvEscape_def)
  moreover have "tsvEscape (tags_spec ''b, a ,b'') = ''b,a,b''"
    by (simp add: tags_spec_def trim_def is_ws_def TAB_def LF_def CR_def tsvEscape_def)
  ultimately show ?thesis by simp
qed

theorem C7_tags_field_sanitized_witness:
  "(0::nat) < length sample_rows \<and> cell (sample_rows ! 0) ''tags'' = ''a, ,b,,c'' \<and>
   split_on TAB (split_on LF (buildTSVBody sample_rows) ! Suc 0) ! 3 = ''a,b,c''"
proof -
  have len: "(0::nat) < length sample_rows" by (simp add: sample_rows_def)
  have tags: "cell (sample_rows ! 0) ''tags'' = ''a, ,b,,c''"
    by (simp add: sample_rows_def row_a_def cell_def)
  from C7_tags_field_sanitized [OF len] len tags show ?thesis by simp
qed

text \<open>
  Without the sanitiser the claim fails: a tab inside a tag is kept by the split, the trim
  and the join, and the serialised field holds a space in its place.
\<close>

theorem C7_tab_in_tags_counterexample:
  "validateRows demo_platform [tab_row] = Inr () \<and>
   split_on TAB (split_on LF (buildTSVBody [tab_row]) ! Suc 0) ! 3 = ''a b'' \<and>
   tags_spec (cell tab_row ''tags'') = [CHR ''a'', TAB, CHR ''b''] \<and>
   split_on TAB (split_on LF (buildTSVBody [tab_row]) ! Suc 0) ! 3 \<noteq> tags_spec (cell tab_row ''tags'')"
proof -
  have valid: "validateRows demo_platform [tab_row] = Inr ()"
    by (simp add: validateRows_def collect_errors_def tab_row_def
      row_errors_def required_def slug_of_def cell_def trim_def is_ws_def TAB_def LF_def
      CR_def isHttpUrl_def demo_platform_def demo_url_protocol_def Let_def)
  have spec: "tags_spec (cell tab_row ''tags'') = [CHR ''a'', TAB, CHR ''b'']"
    by (simp add: tags_spec_def tab_row_def cell_def trim_def is_ws_def TAB_def LF_def CR_def)
  have "split_on LF (buildTSVBody [tab_row]) ! Suc 0 = join [TAB] (row_fields tab_row)"
    by (simp add: split_body)
  then have "split_on TAB (split_on LF (buildTSVBody [tab_row]) ! Suc 0) ! 3 = row_fields tab_row ! 3"
    by (simp add: split_row_line)
  also have "\<dots> = tsvEscape (tags_spec (cell tab_row ''tags''))"
    by (simp add: row_fields_def Let_def tags_field_spec)
  also have "\<dots> = ''a b''"
    by (simp add: spec tsvEscape_def TAB_def LF_def CR_def)
  finally have code: "split_on TAB (split_on LF (buildTSVBody [tab_row]) ! Suc 0) ! 3 = ''a b''" .
  have "''a b'' \<noteq> [CHR ''a'', TAB, CHR ''b'']" by (simp add: TAB_def)
  with valid spec code show ?thesis by simp
qed

subsection \<open>C6: duplicate slugs\<close>

lemma str_includes_sublist: "str_includes s sub = sublist sub s"
  by (induction s) (auto simp: sublist_Cons_right)

lemma dup_checks_seen:
  "seen s = Some n \<Longrightarrow> j < length rows \<Longrightarrow> slug_of (rows ! j) = s \<Longrightarrow> s \<noteq> [] \<Longrightarrow>
   dup_msg s n (base + j + 1) \<in> set (dup_checks base rows seen)"
proof (induction rows arbitrary: base j seen)
  case Nil
  then show ?case by simp
next
  case (Cons r rs)
  show ?case
  proof (cases j)
    case 0
    with Cons.prems show ?thesis by (simp add: Let_def)
  next
    case (Suc j')
    have step: "\<And>seen'. seen' s = Some n \<Longrightarrow>
        dup_msg s n (base + j + 1) \<in> set (dup_checks (base + 1) rs seen')"
      using Cons.IH [of _ j' "base + 1"] Cons.prems Suc by simp
    show ?thesis
    proof (cases "slug_of r = []")
      case True
      then show ?thesis using step [of seen] Cons.prems by (simp add: Let_def)
    next
      case False
      show ?thesis
      proof (cases "seen (slug_of r)")
        case None
        then have "slug_of r \<noteq> s" using Cons.prems by auto
        then have "(seen(slug_of r \<mapsto> base + 1)) s = Some n"
          using Cons.prems by simp
        with step [of "seen(slug_of r \<mapsto> base + 1)"] show ?thesis
          using False None by (simp add: Let_def)
      next
        case (Some m)
        then show ?thesis using step [of seen] Cons.prems False by (simp add: Let_def)
      qed
    qed
  qed
qed

lemma dup_checks_first:
  "seen s = None \<Longrightarrow> i < j \<Longrightarrow> j < length rows \<Longrightarrow> slug_of (rows ! i) = s \<Longrightarrow>
   slug_of (rows ! j) = s \<Longrightarrow> s \<noteq> [] \<Longrightarrow> \<forall>k<i. slug_of (rows ! k) \<noteq> s \<Longrightarrow>
   dup_msg s (base + i + 1) (base + j + 1) \<in> set (dup_checks base rows seen)"
proof (induction rows arbitrary: base i j seen)
  case Nil
  then show ?case by simp
next
  case (Cons r rs)
  from Cons.prems obtain j' where j: "j = Suc j'" by (cases j) auto
  show ?case
  proof (cases i)
    case 0
    then have r: "slug_of r = s" using Cons.prems by simp
    have "dup_msg s (base + 1) (base + 1 + j' + 1) \<in> set (dup_checks (base + 1) rs (seen(s \<mapsto> base + 1)))"
      using Cons.prems j by (intro dup_checks_seen) auto
    then show ?thesis using r Cons.prems 0 j by (simp add: Let_def)
  next
    case (Suc i')
    then have neq: "slug_of r \<noteq> s" using Cons.prems(7) by auto
    have later: "\<forall>k<i'. slug_of (rs ! k) \<noteq> s"
      using Cons.prems(7) Suc by auto
    have step: "\<And>seen'. seen' s = None \<Longrightarrow>
        dup_msg s (base + i + 1) (base + j + 1) \<in> set (dup_checks (base + 1) rs seen')"
      using Cons.IH [of _ i' j' "base + 1"] Cons.prems Suc j later by simp
    show ?thesis
    proof (cases "slug_of r = []")
      case True
      then show ?thesis using step [of seen] Cons.prems by (simp add: Let_def)
    next
      case False
      show ?thesis
      proof (cases "seen (slug_of r)")
        case None
        have "(seen(slug_of r \<mapsto> base + 1)) s = None"
          using neq Cons.prems by simp
        with step [of "seen(slug_of r \<mapsto> base + 1)"] show ?thesis
          using False None by (simp add: Let_def)
      next
        case (Some m)
        then show ?thesis using step [of seen] Cons.prems False by (simp add: Let_def)
      qed
    qed
  qed
qed

lemma sublist_join: "e \<in> set es \<Longrightarrow> sublist e (join sep es)"
proof (induction sep es rule: join.induct)
  case (1 sep)
  then show ?case by simp
next
  case (2 sep x)
  then show ?case by simp
next
  case (3 sep x y ys)
  show ?case
  proof (cases "e = x")
    case True
    have "join sep (x # y # ys) = [] @ x @ (sep @ join sep (y # ys))" by simp
    then show ?thesis unfolding True sublist_def by blast
  next
    case False
    with 3 have "sublist e (join sep (y # ys))" by simp
    then obtain ps ss where "join sep (y # ys) = ps @ e @ ss"
      unfolding sublist_def by blast
    then have "join sep (x # y # ys) = (x @ sep @ ps) @ e @ ss" by simp
    then show ?thesis unfolding sublist_def by blast
  qed
qed

lemma sublist_report: 
  assumes "e \<in> set errors"
  shows "sublist (''- '' @ e) (report errors)"
proof -
  from assms have "''- '' @ e \<in> set (map (\<lambda>e. ''- '' @ e) errors)" by auto
  then have "sublist (''- '' @ e) (join [LF] (map (\<lambda>e. ''- '' @ e) errors))"
    by (rule sublist_join)
  then obtain ps ss where J: "join [LF] (map (\<lambda>e. ''- '' @ e) errors) = ps @ (''- '' @ e) @ ss"
    unfolding sublist_def by blast
  have "report errors =
      (''Registry validation failed:'' @ [LF]) @ join [LF] (map (\<lambda>e. ''- '' @ e) errors)"
    by (simp only: report_def append_assoc)
  also have "\<dots> = ((''Registry validation failed:'' @ [LF]) @ ps) @ (''- '' @ e) @ ss"
    by (simp only: J append_assoc)
  finally show ?thesis unfolding sublist_def by blast
qed

text \<open>
  C6, as amended. When a non-empty trimmed slug occurs in two or more rows, validation
  fails, and for each repeat occurrence (row \<open>j\<close>, with \<open>i\<close> the first row of that
  slug) the list of errors holds the message that names the slug, the 1-based index
  \<open>i + 1\<close> of the first-seen row and the 1-based index \<open>j + 1\<close> of the repeat row; the
  aggregated report holds it as a line item.
\<close>

theorem C6_duplicate_slugs:
  assumes "i < j" and "j < length rows"
    and "slug_of (rows ! i) = slug_of (rows ! j)"
    and "slug_of (rows ! j) \<noteq> []"
    and "\<forall>k<i. slug_of (rows ! k) \<noteq> slug_of (rows ! j)"
  shows "validateRows P rows = Inl (Error (report (collect_errors P rows))) \<and>
         dup_msg (slug_of (rows ! j)) (i + 1) (j + 1) \<in> set (collect_errors P rows) \<and>
         str_includes (report (collect_errors P rows))
           (''- '' @ dup_msg (slug_of (rows ! j)) (i + 1) (j + 1))"
proof -
  have "dup_msg (slug_of (rows ! j)) (0 + i + 1) (0 + j + 1) \<in> set (dup_checks 0 rows Map.empty)"
    using assms by (intro dup_checks_first) auto
  then have mem: "dup_msg (slug_of (rows ! j)) (i + 1) (j + 1) \<in> set (collect_errors P rows)"
    by (simp add: collect_errors_def)
  then have "collect_errors P rows \<noteq> []" by auto
  then have "validateRows P rows = Inl (Error (report (collect_errors P rows)))"
    by (simp add: validateRows_def Let_def)
  with mem sublist_report [OF mem] show ?thesis
    by (simp add: str_includes_sublist)
qed


lemmas eval_rows =
  collect_errors_def row_errors_def required_def slug_of_def cell_def trim_def is_ws_def
  TAB_def LF_def CR_def isHttpUrl_def demo_platform_def demo_url_protocol_def Let_def
  row_label_def show_nat.simps digit_char_def

theorem C6_duplicate_slugs_witness:
  "slug_of (dup_rows ! 1) = ''a'' \<and> slug_of (dup_rows ! 3) = ''a'' \<and>
   validateRows demo_platform dup_rows = Inl (Error (report (collect_errors demo_platform dup_rows))) \<and>
   collect_errors demo_platform dup_rows =
     [''Duplicate slug '' @ [DQ] @ ''a'' @ [DQ] @ '' at rows 2 and 4''] \<and>
   str_includes (report (collect_errors demo_platform dup_rows))
     (''- Duplicate slug '' @ [DQ] @ ''a'' @ [DQ] @ '' at rows 2 and 4'')"
proof -
  have s1: "slug_of (dup_rows ! 1) = ''a''" and s3: "slug_of (dup_rows ! 3) = ''a''"
    and s0: "slug_of (dup_rows ! 0) = ''x''"
    unfolding dup_rows_def by (simp_all add: eval_rows)
  have h1: "(1::nat) < 3" by simp
  have h2: "3 < length dup_rows" by (simp add: dup_rows_def)
  have h3: "slug_of (dup_rows ! 1) = slug_of (dup_rows ! 3)" using s1 s3 by simp
  have h4: "slug_of (dup_rows ! 3) \<noteq> []" using s3 by simp
  have h5: "\<forall>k<1. slug_of (dup_rows ! k) \<noteq> slug_of (dup_rows ! 3)" using s0 s3 by simp
  have msg: "dup_msg (slug_of (dup_rows ! 3)) (1 + 1) (3 + 1) =
      ''Duplicate slug '' @ [DQ] @ ''a'' @ [DQ] @ '' at rows 2 and 4''"
    unfolding s3 by (simp add: dup_msg_def show_nat.simps digit_char_def)
  have all: "collect_errors demo_platform dup_rows =
      [''Duplicate slug '' @ [DQ] @ ''a'' @ [DQ] @ '' at rows 2 and 4'']"
    unfolding dup_rows_def by (simp add: eval_rows dup_msg_def)
  from C6_duplicate_slugs [OF h1 h2 h3 h4 h5, of demo_platform]
  have "validateRows demo_platform dup_rows =
          Inl (Error (report (collect_errors demo_platform dup_rows))) \<and>
        str_includes (report (collect_errors demo_platform dup_rows))
          (''- '' @ dup_msg (slug_of (dup_rows ! 3)) (1 + 1) (3 + 1))"
    by simp
  with s1 s3 all show ?thesis
    unfolding msg by simp
qed

text \<open>
  With the empty slug the claim as stated fails: the second loop skips rows whose trimmed
  slug is empty, so two such rows are reported as two empty slugs and no line names both
  rows.
\<close>

theorem C6_empty_slug_counterexample:
  "slug_of (no_slug_rows ! 0) = slug_of (no_slug_rows ! 1) \<and>
   collect_errors demo_platform no_slug_rows = [''Row 1: empty slug'', ''Row 2: empty slug''] \<and>
   dup_msg (slug_of (no_slug_rows ! 1)) 1 2 \<notin> set (collect_errors demo_platform no_slug_rows)"
  by (simp add: no_slug_rows_def eval_rows dup_msg_def)

subsection \<open>C8: finding the table\<close>

lemma startsWith_includes: "startsWith s ''|'' \<Longrightarrow> str_includes s ''|''"
  by (cases s) (auto simp: startsWith_def)

lemma find_start_step:
  "find_start lines i =
     (if i < length lines
      then (if pair_at lines i then Some i else find_start lines (i + 1))
      else None)"
  by (subst find_start.simps) (auto simp: pair_at_def Let_def startsWith_includes)

lemma find_start_Some:
  "find_start lines i = Some k \<Longrightarrow>
   i \<le> k \<and> pair_at lines k \<and> (\<forall>j. i \<le> j \<and> j < k \<longrightarrow> \<not> pair_at lines j)"
proof (induction "length lines - i" arbitrary: i)
  case 0
  then show ?case by (subst (asm) find_start_step) simp
next
  case (Suc n)
  then have lt: "i < length lines" by simp
  show ?case
  proof (cases "pair_at lines i")
    case True
    with lt Suc.prems have "k = i" by (subst (asm) find_start_step) simp
    with True show ?thesis by auto
  next
    case False
    with lt Suc.prems have "find_start lines (i + 1) = Some k"
      by (subst (asm) find_start_step) simp
    moreover have "n = length lines - (i + 1)" using Suc.hyps(2) by simp
    ultimately have "i + 1 \<le> k \<and> pair_at lines k \<and>
        (\<forall>j. i + 1 \<le> j \<and> j < k \<longrightarrow> \<not> pair_at lines j)"
      using Suc.hyps(1) by blast
    with False show ?thesis
      by (metis Suc_eq_plus1 Suc_leI le_neq_implies_less nat_le_linear not_less_eq_eq)
  qed
qed

lemma find_start_None:
  "find_start lines i = None \<Longrightarrow> i \<le> j \<Longrightarrow> \<not> pair_at lines j"
proof (induction "length lines - i" arbitrary: i)
  case 0
  then show ?case by (simp add: pair_at_def)
next
  case (Suc n)
  then have lt: "i < length lines" by simp
  with Suc.prems(1) have no: "\<not> pair_at lines i"
    by (subst (asm) find_start_step) (simp split: if_splits)
  from lt Suc.prems(1) no have rest: "find_start lines (i + 1) = None"
    by (subst (asm) find_start_step) simp
  have "n = length lines - (i + 1)" using Suc.hyps(2) by simp
  with rest Suc.hyps(1) have "i + 1 \<le> j \<Longrightarrow> \<not> pair_at lines j" by blast
  with no Suc.prems(2) show ?case
    by (cases "i = j") auto
qed

lemma find_start_first:
  assumes "pair_at lines i" and "\<forall>j<i. \<not> pair_at lines j"
  shows "find_start lines 0 = Some i"
proof (cases "find_start lines 0")
  case None
  then show ?thesis using find_start_None [of lines 0 i] assms by simp
next
  case (Some k)
  from find_start_Some [OF this] have k: "pair_at lines k" "\<forall>j<k. \<not> pair_at lines j"
    by auto
  with assms have "k = i" by (meson linorder_neqE_nat)
  with Some show ?thesis by simp
qed

text \<open>
  C8. The parser raises the error \<^verbatim>\<open>No markdown table found in registry.md\<close> if and only if
  no line, trimmed, starts with a pipe and is immediately followed by a line that, trimmed,
  starts with a pipe. When there is such a pair, the first one (top to bottom) gives the
  header line: the next line is checked as the delimiter row, the header cells are those
  of that first line and the rows are read from two lines below it.
\<close>

theorem C8_no_table_iff:
  "(parseMarkdownTable md = Inl (Error ''No markdown table found in registry.md'')) =
     (\<not> (\<exists>i. pair_at (split_lines md) i)) \<and>
   (pair_at (split_lines md) i \<and> (\<forall>j<i. \<not> pair_at (split_lines md) j) \<longrightarrow>
      parseMarkdownTable md =
        (if \<not> str_includes (trim (split_lines md ! (i + 1))) ''---''
         then Inl (Error ''Markdown delimiter line not found after header'')
         else Inr (split_cells (trim (split_lines md ! i)),
                   parse_rows (split_cells (trim (split_lines md ! i)))
                     (drop (i + 2) (split_lines md)))))"
proof (intro conjI impI)
  show "(parseMarkdownTable md = Inl (Error ''No markdown table found in registry.md'')) =
     (\<not> (\<exists>i. pair_at (split_lines md) i))"
  proof (cases "find_start (split_lines md) 0")
    case None
    then have "\<not> (\<exists>i. pair_at (split_lines md) i)"
      using find_start_None [of "split_lines md" 0] by auto
    with None show ?thesis by (simp add: parseMarkdownTable_def Let_def)
  next
    case (Some k)
    then have "pair_at (split_lines md) k" using find_start_Some by blast
    with Some show ?thesis by (auto simp: parseMarkdownTable_def Let_def)
  qed
next
  assume "pair_at (split_lines md) i \<and> (\<forall>j<i. \<not> pair_at (split_lines md) j)"
  then have "find_start (split_lines md) 0 = Some i"
    using find_start_first by blast
  then show "parseMarkdownTable md =
        (if \<not> str_includes (trim (split_lines md ! (i + 1))) ''---''
         then Inl (Error ''Markdown delimiter line not found after header'')
         else Inr (split_cells (trim (split_lines md ! i)),
                   parse_rows (split_cells (trim (split_lines md ! i)))
                     (drop (i + 2) (split_lines md))))"
    by (simp add: parseMarkdownTable_def Let_def)
qed


lemma sample_md_lines:
  "split_lines sample_md =
     [''# Demos'',
      ''| slug | title | url | tags |'',
      ''|------|-------|-----|------|'',
      ''| alpha | Alpha demo | https://example.com/a | a, ,b,,c |'',
      ''| beta | Beta | http://example.com/b |'',
      ''The end.'']"
  by (simp add: sample_md_def LF_def CR_def)

lemmas eval_trim = trim_def is_ws_def TAB_def LF_def CR_def

lemma sample_md_pair: "pair_at (split_lines sample_md) 1" "\<forall>j<1. \<not> pair_at (split_lines sample_md) j"
  unfolding sample_md_lines by (simp_all add: pair_at_def startsWith_def eval_trim)


theorem C8_no_table_iff_witness:
  "pair_at (split_lines sample_md) 1 \<and> \<not> pair_at (split_lines sample_md) 0 \<and>
   parseMarkdownTable sample_md \<noteq> Inl (Error ''No markdown table found in registry.md'') \<and>
   split_cells (trim (split_lines sample_md ! 1)) = [''slug'', ''title'', ''url'', ''tags''] \<and>
   parseMarkdownTable sample_md =
     Inr ([''slug'', ''title'', ''url'', ''tags''],
          parse_rows [''slug'', ''title'', ''url'', ''tags''] (drop 3 (split_lines sample_md)))"
proof -
  have p0: "\<not> pair_at (split_lines sample_md) 0" using sample_md_pair(2) by simp
  have hdr: "split_cells (trim (split_lines sample_md ! 1)) = [''slug'', ''title'', ''url'', ''tags'']"
    unfolding sample_md_lines by (simp add: split_cells_def eval_trim)
  have delim: "str_includes (trim (split_lines sample_md ! (1 + 1))) ''---''"
    unfolding sample_md_lines by (simp add: eval_trim)
  from C8_no_table_iff [of sample_md 1] sample_md_pair hdr delim p0
  show ?thesis by (auto simp: numeral_3_eq_3)
qed

subsection \<open>C5: a violation aborts the build\<close>

text \<open>
  The validator collects an error exactly when the row set violates the data model.
\<close>

lemma row_errors_Nil_iff: "row_errors P i r = [] \<longleftrightarrow> \<not> row_violation P r"
  by (auto simp: row_errors_def row_violation_def required_def Let_def)

lemma row_checks_Nil_iff: "row_checks P i rows = [] \<longleftrightarrow> \<not> list_ex (row_violation P) rows"
  by (induction rows arbitrary: i) (auto simp: row_errors_Nil_iff)

lemma dup_checks_Nil_iff:
  "dup_checks i rows seen = [] \<longleftrightarrow>
     distinct (filter (\<lambda>s. s \<noteq> []) (map slug_of rows)) \<and>
     set (filter (\<lambda>s. s \<noteq> []) (map slug_of rows)) \<inter> dom seen = {}"
proof (induction rows arbitrary: i seen)
  case Nil
  then show ?case by simp
next
  case (Cons r rs)
  show ?case
  proof (cases "slug_of r = []")
    case True
    then show ?thesis using Cons.IH [of "i + 1" seen] by (simp add: Let_def)
  next
    case False
    show ?thesis
    proof (cases "seen (slug_of r)")
      case None
      let ?ss = "filter (\<lambda>s. s \<noteq> []) (map slug_of rs)"
      have "dup_checks i (r # rs) seen = dup_checks (i + 1) rs (seen(slug_of r \<mapsto> i + 1))"
        using False None by (simp add: Let_def)
      also have "\<dots> = [] \<longleftrightarrow>
          distinct ?ss \<and> set ?ss \<inter> dom (seen(slug_of r \<mapsto> i + 1)) = {}"
        by (rule Cons.IH)
      also have "dom (seen(slug_of r \<mapsto> i + 1)) = insert (slug_of r) (dom seen)"
        by simp
      finally have "dup_checks i (r # rs) seen = [] \<longleftrightarrow>
          distinct ?ss \<and> set ?ss \<inter> insert (slug_of r) (dom seen) = {}" .
      moreover have "slug_of r \<notin> dom seen" using None by (simp add: domIff)
      moreover have "filter (\<lambda>s. s \<noteq> []) (map slug_of (r # rs)) = slug_of r # ?ss"
        using False by simp
      ultimately show ?thesis
        by (simp only: distinct.simps list.set) blast
    next
      case (Some m)
      then show ?thesis using False by (auto simp: Let_def)
    qed
  qed
qed

lemma no_row_violation_slugs:
  assumes "\<not> list_ex (row_violation P) rows"
  shows "filter (\<lambda>s. s \<noteq> []) (map slug_of rows) = map slug_of rows"
  using assms by (induction rows) (auto simp: row_violation_def)

lemma collect_errors_iff: "collect_errors P rows \<noteq> [] \<longleftrightarrow> has_violation P rows"
proof (cases "list_ex (row_violation P) rows")
  case True
  then show ?thesis
    by (simp add: collect_errors_def has_violation_def row_checks_Nil_iff)
next
  case False
  then show ?thesis
    by (simp add: collect_errors_def has_violation_def row_checks_Nil_iff dup_checks_Nil_iff
        no_row_violation_slugs)
qed

lemma ensureDir_ok:
  "OUT_DIR \<notin> dom (files s) \<Longrightarrow> ensureDir OUT_DIR s = Inr (s\<lparr>dirs := insert OUT_DIR (dirs s)\<rparr>)"
  by (simp add: ensureDir_def)

text \<open>
  C5. When the rows that the parser returns violate the data model, the build ends with
  the one aggregated error that lists every message, and the files of the file system are
  those it started with: neither \<^verbatim>\<open>registry.tsv\<close> nor a hash-named file is created or
  changed. (The run reaches the validator: the output directory can be made, the input is
  read and parsed.)
\<close>

theorem C5_violation_aborts:
  assumes "OUT_DIR \<notin> dom (files s)"
    and "files s INPUT_MD = Some b"
    and "parseMarkdownTable (utf8_decode P b) = Inr (headers, rows)"
    and "has_violation P rows"
  shows "main P s = (Inl (Error (report (collect_errors P rows))),
                     s\<lparr>dirs := insert OUT_DIR (dirs s)\<rparr>) \<and>
         collect_errors P rows \<noteq> [] \<and>
         files (snd (main P s)) = files s"
proof -
  have errs: "collect_errors P rows \<noteq> []"
    using assms(4) by (simp add: collect_errors_iff)
  then have "validateRows P rows = Inl (Error (report (collect_errors P rows)))"
    by (simp add: validateRows_def Let_def)
  then have "main P s = (Inl (Error (report (collect_errors P rows))),
                     s\<lparr>dirs := insert OUT_DIR (dirs s)\<rparr>)"
    using assms(1-3) by (simp add: main_def ensureDir_ok readFileSync_def)
  with errs show ?thesis by simp
qed

lemma demo_codec: "utf8_decode demo_platform (utf8_encode demo_platform s) = s"
  by (induction s) (simp_all add: demo_platform_def unat_of_nat)


lemmas eval_paths = INPUT_MD_def OUT_DIR_def ROOT_def

lemma bad_md_parsed:
  "parseMarkdownTable bad_md = Inr ([''slug'', ''title'', ''url'', ''tags''], bad_rows)"
proof -
  have lines: "split_lines bad_md =
     [''| slug | title | url | tags |'',
      ''|------|-------|-----|------|'',
      ''| beta b | Beta | ftp://example.com/b | t |'']"
    by (simp add: bad_md_def LF_def CR_def)
  have "pair_at (split_lines bad_md) 0"
    unfolding lines by (simp add: pair_at_def startsWith_def eval_trim)
  then have "find_start (split_lines bad_md) 0 = Some 0"
    by (intro find_start_first) auto
  then show ?thesis
    unfolding parseMarkdownTable_def lines
    by (simp add: Let_def split_cells_def startsWith_def eval_trim make_row_def obj_set_def
        bad_rows_def)
qed

lemma bad_rows_errors:
  "collect_errors demo_platform bad_rows =
     [''Row 1: slug has whitespace: '' @ [DQ] @ ''beta b'' @ [DQ],
      ''Row 1: url is not http(s): '' @ [DQ] @ ''ftp://example.com/b'' @ [DQ]]"
  unfolding bad_rows_def by (simp add: eval_rows)

theorem C5_violation_aborts_witness:
  "has_violation demo_platform bad_rows \<and>
   main demo_platform (fs_with bad_md) =
     (Inl (Error (report
        [''Row 1: slug has whitespace: '' @ [DQ] @ ''beta b'' @ [DQ],
         ''Row 1: url is not http(s): '' @ [DQ] @ ''ftp://example.com/b'' @ [DQ]])),
      (fs_with bad_md)\<lparr>dirs := {OUT_DIR}\<rparr>) \<and>
   files (snd (main demo_platform (fs_with bad_md))) = files (fs_with bad_md)"
proof -
  have h1: "OUT_DIR \<notin> dom (files (fs_with bad_md))"
    by (simp add: fs_with_def eval_paths)
  have h2: "files (fs_with bad_md) INPUT_MD = Some (utf8_encode demo_platform bad_md)"
    by (simp add: fs_with_def)
  have h3: "parseMarkdownTable (utf8_decode demo_platform (utf8_encode demo_platform bad_md)) =
      Inr ([''slug'', ''title'', ''url'', ''tags''], bad_rows)"
    by (simp add: demo_codec bad_md_parsed)
  have h4: "has_violation demo_platform bad_rows"
    using bad_rows_errors by (simp add: collect_errors_iff [symmetric])
  have d: "dirs (fs_with bad_md) = {}" by (simp add: fs_with_def)
  from C5_violation_aborts [OF h1 h2 h3 h4] h4 show ?thesis
    by (simp add: bad_rows_errors d)
qed

subsection \<open>C2: the two output files\<close>


lemma sample_body:
  "buildTSVBody sample_rows =
     ''slug'' @ [TAB] @ ''title'' @ [TAB] @ ''url'' @ [TAB] @ ''tags'' @ [LF] @
     ''alpha'' @ [TAB] @ ''Alpha demo'' @ [TAB] @ ''https://example.com/a'' @ [TAB] @ ''a,b,c'' @ [LF] @
     ''beta'' @ [TAB] @ ''Beta'' @ [TAB] @ ''http://example.com/b'' @ [TAB] @ [LF]"
  by (simp add: buildTSVBody_def sample_rows_def row_a_def row_b_def row_fields_def
      tags_field_def tsvEscape_def cell_def Let_def eval_trim)


subsection \<open>C10: the output directory comes first\<close>

text \<open>
  C10. The output directory is made before anything else (making it again changes
  nothing): when \<^verbatim>\<open>mkdirSync\<close> does not fail, every run leaves \<^verbatim>\<open>dist\<close> among the
  directories, and a run that fails on a missing input file, on a parse error or on a
  validation error leaves exactly the initial file system with \<^verbatim>\<open>dist\<close> added.
\<close>

theorem C10_dist_created_first:
  assumes "OUT_DIR \<notin> dom (files s)"
  shows "dirs (snd (main P s)) = insert OUT_DIR (dirs s) \<and>
         ensureDir OUT_DIR (s\<lparr>dirs := insert OUT_DIR (dirs s)\<rparr>) =
           Inr (s\<lparr>dirs := insert OUT_DIR (dirs s)\<rparr>) \<and>
         (files s INPUT_MD = None \<longrightarrow>
            main P s = (Inl (FsError (if INPUT_MD \<in> dirs s then ''EISDIR'' else ''ENOENT'') INPUT_MD),
                        s\<lparr>dirs := insert OUT_DIR (dirs s)\<rparr>)) \<and>
         (\<forall>b e. files s INPUT_MD = Some b \<and> parseMarkdownTable (utf8_decode P b) = Inl e \<longrightarrow>
            main P s = (Inl e, s\<lparr>dirs := insert OUT_DIR (dirs s)\<rparr>)) \<and>
         (\<forall>b headers rows e. files s INPUT_MD = Some b \<and>
              parseMarkdownTable (utf8_decode P b) = Inr (headers, rows) \<and>
              validateRows P rows = Inl e \<longrightarrow>
            main P s = (Inl e, s\<lparr>dirs := insert OUT_DIR (dirs s)\<rparr>))"
proof (intro conjI impI allI)
  show "dirs (snd (main P s)) = insert OUT_DIR (dirs s)"
    using assms
    by (auto simp: main_def ensureDir_ok readFileSync_def writeFileSync_def Let_def
        split: option.splits sum.splits prod.splits)
  show "ensureDir OUT_DIR (s\<lparr>dirs := insert OUT_DIR (dirs s)\<rparr>) =
           Inr (s\<lparr>dirs := insert OUT_DIR (dirs s)\<rparr>)"
    using assms by (simp add: ensureDir_def)
  show "main P s = (Inl (FsError (if INPUT_MD \<in> dirs s then ''EISDIR'' else ''ENOENT'') INPUT_MD),
                        s\<lparr>dirs := insert OUT_DIR (dirs s)\<rparr>)"
    if "files s INPUT_MD = None"
  proof -
    have "INPUT_MD \<noteq> OUT_DIR" by (simp add: eval_paths)
    with assms that show ?thesis
      by (simp add: main_def ensureDir_ok readFileSync_def)
  qed
  show "main P s = (Inl e, s\<lparr>dirs := insert OUT_DIR (dirs s)\<rparr>)"
    if "files s INPUT_MD = Some b \<and> parseMarkdownTable (utf8_decode P b) = Inl e" for b e
    using assms that by (simp add: main_def ensureDir_ok readFileSync_def)
  show "main P s = (Inl e, s\<lparr>dirs := insert OUT_DIR (dirs s)\<rparr>)"
    if "files s INPUT_MD = Some b \<and>
              parseMarkdownTable (utf8_decode P b) = Inr (headers, rows) \<and>
              validateRows P rows = Inl e" for b headers rows e
    using assms that by (simp add: main_def ensureDir_ok readFileSync_def)
qed

theorem C10_dist_created_first_witness:
  "OUT_DIR \<notin> dom (files empty_fs) \<and> files empty_fs INPUT_MD = None \<and>
   main demo_platform empty_fs =
     (Inl (FsError ''ENOENT'' [''registry.md'']), \<lparr>dirs = {[''dist'']}, files = Map.empty\<rparr>) \<and>
   OUT_DIR \<in> dirs (snd (main demo_platform empty_fs))"
proof -
  have h: "OUT_DIR \<notin> dom (files empty_fs)" by (simp add: empty_fs_def)
  have n: "files empty_fs INPUT_MD = None" by (simp add: empty_fs_def)
  from C10_dist_created_first [OF h, of demo_platform] h n show ?thesis
    by (simp add: empty_fs_def eval_paths)
qed


section \<open>Properties of the static server\<close>

subsection \<open>Paths\<close>

lemma Ext_tsv: "Ext (p @ ''.tsv'') = ''.tsv''"
  by (simp add: Ext_def)

lemma ToLower_tsv: "ToLower ''.tsv'' = ''.tsv''"
  by (simp add: ToLower_def lower_char_def)

lemma HasPrefix_registry: "HasPrefix (''/registry.'' @ x) ''/registry.''"
  by (simp add: HasPrefix_def)

lemma HasSuffix_tsv: "HasSuffix (x @ ''.tsv'') ''.tsv''"
  by (simp add: HasSuffix_def suffix_def)

subsection \<open>The two branches of withGzip after the header is set\<close>

lemma withGzip_compresses:
  assumes "Contains (Get (req_header r) ''Accept-Encoding'') ''gzip''"
    and "ToLower (Ext (url_path r)) \<in> {''.tsv'', ''.html'', ''.js'', ''.css''}"
    and "NewWriterLevel BestCompression = Inr gz"
  shows "withGzip NewWriterLevel nxt w r =
    (let w2 = w\<lparr>rw_header :=
                  Add (Set (rw_header w) ''Content-Encoding'' ''gzip'') ''Vary'' ''Accept-Encoding''\<rparr>;
         inner = nxt (w2\<lparr>rw_written := []\<rparr>) r
     in inner\<lparr>rw_written := rw_written w @ gz (rw_written inner)\<rparr>)"
  using assms by (auto simp add: withGzip_def Let_def)


subsection \<open>What the handler leaves of the header map, and what it writes\<close>

lemma handler_header:
  assumes "\<And>h. reply_header (fs r h) k = h k"
    and "k \<noteq> ''Access-Control-Allow-Origin''" and "k \<noteq> ''Cache-Control''"
  shows "rw_header (handler fs w r) k = rw_header w k"
  using assms by (simp add: handler_def FileServer_ServeHTTP_def Let_def Set_def)

lemma handler_cache_control_hashed:
  assumes "\<And>h. reply_header (fs r h) ''Cache-Control'' = h ''Cache-Control''"
    and "HasPrefix (url_path r) ''/registry.''" and "HasSuffix (url_path r) ''.tsv''"
  shows "rw_header (handler fs w r) ''Cache-Control'' =
         Some [''public, max-age=31536000, immutable'']"
  using assms by (simp add: handler_def FileServer_ServeHTTP_def Let_def Set_def)

lemma handler_written:
  assumes "\<And>h. reply_data (fs r h) = file_bytes"
  shows "rw_written (handler fs w r) = rw_written w @ file_bytes"
  using assms by (simp add: handler_def FileServer_ServeHTTP_def Let_def)

text \<open>
  The branch for \<^verbatim>\<open>/registry.tsv\<close> is never taken: the path starts with
  \<^verbatim>\<open>/registry.\<close> and ends with \<^verbatim>\<open>.tsv\<close>, so the first test holds.
\<close>

lemma stable_name_takes_first_branch:
  assumes "\<And>h. reply_header (fs r h) ''Cache-Control'' = h ''Cache-Control''"
    and "url_path r = ''/registry.tsv''"
  shows "rw_header (handler fs w r) ''Cache-Control'' =
         Some [''public, max-age=31536000, immutable'']"
  using assms
  by (simp add: handler_def FileServer_ServeHTTP_def Let_def Set_def HasPrefix_def
      HasSuffix_def suffix_def)

subsection \<open>The claims\<close>

text \<open>
  C1. A request for \<^verbatim>\<open>/registry.tsv\<close> without an \<^verbatim>\<open>Accept-Encoding\<close> header is
  answered with the file uncompressed and with no \<^verbatim>\<open>Content-Encoding\<close> header, but the
  \<^verbatim>\<open>Cache-Control\<close> value is the one of the hash-named file, not
  \<^verbatim>\<open>public, max-age=60\<close>: the code evaluated at that request.
\<close>

theorem C1_stable_name_gets_immutable:
  "rw_header (serve demo_gzip (demo_file_server sample_bytes) stable_request) ''Cache-Control''
     = Some [''public, max-age=31536000, immutable''] \<and>
   rw_header (serve demo_gzip (demo_file_server sample_bytes) stable_request) ''Content-Encoding''
     = None \<and>
   rw_written (serve demo_gzip (demo_file_server sample_bytes) stable_request) = sample_bytes"
  by (simp add: serve_def withGzip_def handler_def Get_def Contains_def HasPrefix_def
      HasSuffix_def suffix_def FileServer_ServeHTTP_def demo_file_server_def Set_def
      new_response_def stable_request_def Let_def)

text \<open>
  C3, as amended. For a request whose path is \<^verbatim>\<open>/registry.<hash>.tsv\<close> with a non-empty
  hash, whose \<^verbatim>\<open>Accept-Encoding\<close> header as \<^verbatim>\<open>Header.Get\<close> reads it (its first value)
  mentions gzip, and which the file server answers by writing the file's bytes and
  leaving \<^verbatim>\<open>Content-Encoding\<close>, \<^verbatim>\<open>Cache-Control\<close> and \<^verbatim>\<open>Vary\<close> as it finds them, the
  response carries \<^verbatim>\<open>Content-Encoding: gzip\<close>,
  \<^verbatim>\<open>Cache-Control: public, max-age=31536000, immutable\<close> and \<^verbatim>\<open>Vary: Accept-Encoding\<close>,
  and gunzipping the body gives the bytes of the served file. The gzip library is taken
  by its contract: the writer is constructed and decompression inverts it.
\<close>

theorem C3_hashed_name_gzip:
  assumes path: "url_path r = ''/registry.'' @ hash @ ''.tsv''" and "hash \<noteq> []"
    and ae: "Contains (Get (req_header r) ''Accept-Encoding'') ''gzip''"
    and gz: "NewWriterLevel BestCompression = Inr gz"
    and roundtrip: "\<And>b. gunzip (gz b) = Some b"
    and data: "\<And>h. reply_data (fs r h) = file_bytes"
    and keep_ce: "\<And>h. reply_header (fs r h) ''Content-Encoding'' = h ''Content-Encoding''"
    and keep_cc: "\<And>h. reply_header (fs r h) ''Cache-Control'' = h ''Cache-Control''"
    and keep_vary: "\<And>h. reply_header (fs r h) ''Vary'' = h ''Vary''"
  shows "rw_header (serve NewWriterLevel fs r) ''Content-Encoding'' = Some [''gzip''] \<and>
         rw_header (serve NewWriterLevel fs r) ''Cache-Control''
           = Some [''public, max-age=31536000, immutable''] \<and>
         rw_header (serve NewWriterLevel fs r) ''Vary'' = Some [''Accept-Encoding''] \<and>
         gunzip (rw_written (serve NewWriterLevel fs r)) = Some file_bytes"
proof -
  have ext: "ToLower (Ext (url_path r)) \<in> {''.tsv'', ''.html'', ''.js'', ''.css''}"
    using Ext_tsv [of "''/registry.'' @ hash"] by (simp add: path ToLower_tsv)
  have pre: "HasPrefix (url_path r) ''/registry.''"
    unfolding path by (rule HasPrefix_registry)
  have suf: "HasSuffix (url_path r) ''.tsv''"
    using HasSuffix_tsv [of "''/registry.'' @ hash"] by (simp add: path)
  note eq = withGzip_compresses
    [where NewWriterLevel = NewWriterLevel and nxt = "handler fs" and w = new_response,
      OF ae ext gz]
  have ce: "rw_header (serve NewWriterLevel fs r) ''Content-Encoding'' = Some [''gzip'']"
    unfolding serve_def eq
    by (simp add: Let_def handler_header [where fs = fs and r = r, OF keep_ce]
        Add_def Set_def new_response_def)
  have vary: "rw_header (serve NewWriterLevel fs r) ''Vary'' = Some [''Accept-Encoding'']"
    unfolding serve_def eq
    by (simp add: Let_def handler_header [where fs = fs and r = r, OF keep_vary]
        Add_def Set_def new_response_def)
  have cc: "rw_header (serve NewWriterLevel fs r) ''Cache-Control''
              = Some [''public, max-age=31536000, immutable'']"
    unfolding serve_def eq
    by (simp add: Let_def
        handler_cache_control_hashed [where fs = fs and r = r, OF keep_cc pre suf])
  have body: "gunzip (rw_written (serve NewWriterLevel fs r)) = Some file_bytes"
    unfolding serve_def eq
    by (simp add: Let_def handler_written [where fs = fs and r = r, OF data] roundtrip
        new_response_def)
  from ce cc vary body show ?thesis by simp
qed

theorem C3_hashed_name_gzip_witness:
  "url_path hashed_request = ''/registry.'' @ ''abcdef0123456789'' @ ''.tsv'' \<and>
   Contains (Get (req_header hashed_request) ''Accept-Encoding'') ''gzip'' \<and>
   demo_gzip BestCompression = Inr demo_compress \<and>
   (\<forall>b. demo_gunzip (demo_compress b) = Some b) \<and>
   rw_header (serve demo_gzip (demo_file_server sample_bytes) hashed_request) ''Content-Encoding''
     = Some [''gzip''] \<and>
   rw_header (serve demo_gzip (demo_file_server sample_bytes) hashed_request) ''Cache-Control''
     = Some [''public, max-age=31536000, immutable''] \<and>
   rw_header (serve demo_gzip (demo_file_server sample_bytes) hashed_request) ''Vary''
     = Some [''Accept-Encoding''] \<and>
   demo_gunzip (rw_written (serve demo_gzip (demo_file_server sample_bytes) hashed_request))
     = Some sample_bytes"
proof -
  have path: "url_path hashed_request = ''/registry.'' @ ''abcdef0123456789'' @ ''.tsv''"
    by (simp add: hashed_request_def)
  have ne: "''abcdef0123456789'' \<noteq> []" by simp
  have ae: "Contains (Get (req_header hashed_request) ''Accept-Encoding'') ''gzip''"
    by (simp add: hashed_request_def Get_def Contains_def)
  have gz: "demo_gzip BestCompression = Inr demo_compress"
    by (simp add: demo_gzip_def BestCompression_def)
  have roundtrip: "\<And>b. demo_gunzip (demo_compress b) = Some b"
    by (simp add: demo_gunzip_def demo_compress_def)
  have data: "\<And>h. reply_data (demo_file_server sample_bytes hashed_request h) = sample_bytes"
    by (simp add: demo_file_server_def)
  have keep: "\<And>h k. k \<noteq> ''Content-Type'' \<Longrightarrow>
      reply_header (demo_file_server sample_bytes hashed_request h) k = h k"
    by (simp add: demo_file_server_def Set_def)
  have "rw_header (serve demo_gzip (demo_file_server sample_bytes) hashed_request)
          ''Content-Encoding'' = Some [''gzip''] \<and>
        rw_header (serve demo_gzip (demo_file_server sample_bytes) hashed_request)
          ''Cache-Control'' = Some [''public, max-age=31536000, immutable''] \<and>
        rw_header (serve demo_gzip (demo_file_server sample_bytes) hashed_request) ''Vary''
          = Some [''Accept-Encoding''] \<and>
        demo_gunzip (rw_written (serve demo_gzip (demo_file_server sample_bytes) hashed_request))
          = Some sample_bytes"
    by (rule C3_hashed_name_gzip
        [where r = hashed_request and hash = "''abcdef0123456789''"
          and NewWriterLevel = demo_gzip and gz = demo_compress and gunzip = demo_gunzip
          and fs = "demo_file_server sample_bytes" and file_bytes = sample_bytes,
          OF path ne ae gz roundtrip data])
      (simp_all add: keep)
  with path ae gz roundtrip show ?thesis by simp
qed

text \<open>
  As stated, without the conditions on how the header is read and on what the file server
  does, the claim fails. A request that names gzip on a second \<^verbatim>\<open>Accept-Encoding\<close> line
  is served uncompressed, with no \<^verbatim>\<open>Content-Encoding\<close>: \<^verbatim>\<open>Header.Get\<close> gives the first
  value only. A conditional request that the file server answers with 304 has no
  \<^verbatim>\<open>Content-Encoding\<close> on the response, and its body does not gunzip to the file.
\<close>

theorem C3_second_line_and_not_modified_counterexample:
  "url_path second_line_request = ''/registry.'' @ ''abcdef0123456789'' @ ''.tsv'' \<and>
   req_header second_line_request ''Accept-Encoding'' = Some [''identity'', ''gzip''] \<and>
   rw_header (serve demo_gzip (demo_file_server sample_bytes) second_line_request)
     ''Content-Encoding'' = None \<and>
   rw_header (serve demo_gzip (demo_file_server sample_bytes) second_line_request)
     ''Vary'' = None \<and>
   rw_written (serve demo_gzip (demo_file_server sample_bytes) second_line_request)
     = sample_bytes \<and>
   demo_gunzip (rw_written (serve demo_gzip (demo_file_server sample_bytes) second_line_request))
     \<noteq> Some sample_bytes \<and>
   url_path conditional_request = ''/registry.'' @ ''abcdef0123456789'' @ ''.tsv'' \<and>
   Contains (Get (req_header conditional_request) ''Accept-Encoding'') ''gzip'' \<and>
   rw_status (serve demo_gzip (conditional_file_server sample_bytes) conditional_request)
     = Some 304 \<and>
   rw_header (serve demo_gzip (conditional_file_server sample_bytes) conditional_request)
     ''Content-Encoding'' = None \<and>
   demo_gunzip
     (rw_written (serve demo_gzip (conditional_file_server sample_bytes) conditional_request))
     \<noteq> Some sample_bytes"
proof -
  have second:
    "rw_header (serve demo_gzip (demo_file_server sample_bytes) second_line_request)
       ''Content-Encoding'' = None"
    "rw_header (serve demo_gzip (demo_file_server sample_bytes) second_line_request)
       ''Vary'' = None"
    "rw_written (serve demo_gzip (demo_file_server sample_bytes) second_line_request)
       = sample_bytes"
    by (simp_all add: serve_def withGzip_def handler_def Get_def Contains_def HasPrefix_def
        HasSuffix_def suffix_def FileServer_ServeHTTP_def demo_file_server_def Set_def
        new_response_def second_line_request_def Let_def)
  have raw: "demo_gunzip sample_bytes \<noteq> Some sample_bytes"
    by (simp add: demo_gunzip_def sample_bytes_def)
  have ae: "Contains (Get (req_header conditional_request) ''Accept-Encoding'') ''gzip''"
    by (simp add: conditional_request_def Get_def Contains_def)
  have ext: "ToLower (Ext (url_path conditional_request)) \<in> {''.tsv'', ''.html'', ''.js'', ''.css''}"
    by (simp add: conditional_request_def Ext_def ToLower_def lower_char_def)
  have gz: "demo_gzip BestCompression = Inr demo_compress"
    by (simp add: demo_gzip_def BestCompression_def)
  note eq = withGzip_compresses
    [where NewWriterLevel = demo_gzip and w = new_response
      and nxt = "handler (conditional_file_server sample_bytes)", OF ae ext gz]
  have cond:
    "rw_status (serve demo_gzip (conditional_file_server sample_bytes) conditional_request)
       = Some 304"
    "rw_header (serve demo_gzip (conditional_file_server sample_bytes) conditional_request)
       ''Content-Encoding'' = None"
    "demo_gunzip
       (rw_written (serve demo_gzip (conditional_file_server sample_bytes) conditional_request))
       \<noteq> Some sample_bytes"
    unfolding serve_def eq
    by (simp_all add: Let_def handler_def FileServer_ServeHTTP_def conditional_file_server_def
        conditional_request_def new_response_def demo_gunzip_def demo_compress_def
        sample_bytes_def)
  have paths:
    "url_path second_line_request = ''/registry.'' @ ''abcdef0123456789'' @ ''.tsv''"
    "req_header second_line_request ''Accept-Encoding'' = Some [''identity'', ''gzip'']"
    "url_path conditional_request = ''/registry.'' @ ''abcdef0123456789'' @ ''.tsv''"
    by (simp_all add: second_line_request_def conditional_request_def)
  from second raw ae cond paths show ?thesis by simp
qed



end
